theory Spec2Isabelle
  imports Main
begin

section \<open>The view layer of the event-listing application (events/views.py)\<close>

text \<open>
  The handlers of \<^verbatim>\<open>events/views.py\<close> are embedded as functions from the store and the
  request to either a raised exception (\<open>Inl\<close>) or a response (\<open>Inr\<close>); handlers that
  write return the new store as well. Users are identified by their primary key;
  \<open>None\<close> as the requesting user is the anonymous user.
\<close>

subsection \<open>Data model\<close>

type_synonym user_id = nat

record tag =
  tag_id :: nat
  tag_name :: string
  tag_slug :: string

record category =
  cat_id :: nat
  cat_name :: string
  cat_slug :: string

record comment =
  username :: string
  comment_body :: string
  comment_event :: nat

text \<open>
  The columns of an event that the handlers read or write. \<open>tags\<close> holds the primary keys
  of the tags attached to the event (one entry per row of the many-to-many table),
  \<open>users_attending\<close> the members of the attendee relation.
\<close>

record event =
  event_id :: nat
  name :: string
  slug :: string
  category :: "nat option"
  user :: user_id
  make_private :: bool
  tags :: "nat list"
  users_attending :: "user_id set"

record database =
  db_events :: "event list"
  db_tags :: "tag list"
  db_categories :: "category list"
  db_comments :: "comment list"

text \<open>\<open>request.GET\<close> and \<open>request.POST\<close>: the submitted key/value pairs in order.\<close>

type_synonym querydict = "(string \<times> string) list"

text \<open>The cleaned data of a valid event form, as far as the handlers depend on it.\<close>

record event_data =
  c_name :: string
  c_category :: "nat option"
  c_make_private :: bool
  c_tags :: "nat list"

record comment_data =
  c_username :: string
  c_comment :: string

datatype form = Form_unbound | Form_bound querydict

datatype exn =
    Http404
  | DoesNotExist
  | MultipleObjectsReturned
  | IntegrityError
  | ViewReturnedNone

datatype ctx_value =
    Ev event
  | Evs "event list"
  | Tg tag
  | Tags "tag list"
  | Cat category
  | Cms "comment list"
  | Frm form
  | Str string

type_synonym template_context = "(string \<times> ctx_value) list"

datatype destination = ToEvent event | ToLogin | ToName string

datatype response =
    HttpResponse string
  | HttpResponseForbidden
  | HttpResponseRedirect destination
  | Render string template_context

datatype message = Success string | Error string

subsection \<open>Library behaviour the handlers rely on\<close>

text \<open>\<open>QueryDict.get\<close>: the last value submitted under the key, \<open>None\<close> without one.\<close>

definition qd_get :: "querydict \<Rightarrow> string \<Rightarrow> string option" where
  "qd_get q k = map_of (rev q) k"

text \<open>Python's \<open>str\<close> on a non-negative integer.\<close>

fun str_nat :: "nat \<Rightarrow> string" where
  "str_nat n =
     (if n < 10 then [''0123456789'' ! n]
      else str_nat (n div 10) @ [''0123456789'' ! (n mod 10)])"

declare str_nat.simps [simp del]

text \<open>
  \<open>contains q s\<close>: the needle \<open>q\<close> occurs in \<open>s\<close> as a contiguous substring, character by
  character. \<open>lower\<close> folds the ASCII letters to lower case and leaves every other
  character alone.
\<close>

fun starts_with :: "string \<Rightarrow> string \<Rightarrow> bool" where
  "starts_with [] s = True"
| "starts_with (c # q) [] = False"
| "starts_with (c # q) (d # s) = (c = d \<and> starts_with q s)"

fun contains :: "string \<Rightarrow> string \<Rightarrow> bool" where
  "contains q [] = (q = [])"
| "contains q (d # s) = (starts_with q (d # s) \<or> contains q s)"

definition lower_char :: "char \<Rightarrow> char" where
  "lower_char c =
     (case map_of (zip ''ABCDEFGHIJKLMNOPQRSTUVWXYZ'' ''abcdefghijklmnopqrstuvwxyz'') c of
        None \<Rightarrow> c
      | Some d \<Rightarrow> d)"

definition lower :: "string \<Rightarrow> string" where
  "lower s = map lower_char s"

text \<open>
  The lookups \<open>name__contains\<close>, \<open>name__icontains\<close> and \<open>tags__slug__contains\<close> are
  \<open>LIKE\<close> tests of the database, and how they treat case is the database's. On SQLite
  \<open>LIKE\<close> ignores the case of the ASCII letters, so there \<open>contains\<close> behaves as
  \<open>icontains\<close> does. The other backends compare \<open>contains\<close> exactly and \<open>icontains\<close> after
  mapping both sides with the database's own case mapping, which is the argument of
  \<open>CaseSensitiveLike\<close>. The settings of the project are not among the sources, so the
  backend is a parameter of the handlers that use these lookups.
\<close>

datatype backend = SQLite | CaseSensitiveLike "string \<Rightarrow> string"

definition case_fold :: "backend \<Rightarrow> string \<Rightarrow> string" where
  "case_fold b s = (case b of SQLite \<Rightarrow> lower s | CaseSensitiveLike f \<Rightarrow> f s)"

definition field_contains :: "backend \<Rightarrow> string \<Rightarrow> string \<Rightarrow> bool" where
  "field_contains b q s =
     (case b of
        SQLite \<Rightarrow> contains (lower q) (lower s)
      | CaseSensitiveLike f \<Rightarrow> contains q s)"

definition field_icontains :: "backend \<Rightarrow> string \<Rightarrow> string \<Rightarrow> bool" where
  "field_icontains b q s = contains (case_fold b q) (case_fold b s)"

text \<open>
  \<open>django.utils.text.slugify\<close> on ASCII input. The library first normalises the text
  (NFKD), which folds an accented letter to its base letter; that step is not modelled,
  so the definition is exact for ASCII names only: characters outside ASCII are dropped, the
  rest is lower-cased, everything but word characters, whitespace and hyphens is removed,
  each run of whitespace and hyphens becomes one hyphen (\<open>collapse\<close>, whose flag
  says that the previous character belonged to such a run), and hyphens and underscores are
  stripped from both ends.
\<close>

definition is_space :: "char \<Rightarrow> bool" where
  "is_space c = (c \<in> set [CHR '' '', CHR 0x09, CHR 0x0A, CHR 0x0B, CHR 0x0C, CHR 0x0D,
                           CHR 0x1C, CHR 0x1D, CHR 0x1E, CHR 0x1F])"

definition is_word :: "char \<Rightarrow> bool" where
  "is_word c = (c \<in> set ''abcdefghijklmnopqrstuvwxyzABCDEFGHIJKLMNOPQRSTUVWXYZ0123456789_'')"

definition is_ascii :: "char \<Rightarrow> bool" where
  "is_ascii c = (\<not> digit7 c)"

fun collapse :: "bool \<Rightarrow> string \<Rightarrow> string" where
  "collapse in_run [] = []"
| "collapse in_run (c # s) =
     (if c = CHR ''-'' \<or> is_space c
      then (if in_run then collapse True s else CHR ''-'' # collapse True s)
      else c # collapse False s)"

definition strip_chars :: "(char \<Rightarrow> bool) \<Rightarrow> string \<Rightarrow> string" where
  "strip_chars P s = rev (dropWhile P (rev (dropWhile P s)))"

definition slugify :: "string \<Rightarrow> string" where
  "slugify v =
     (let value = filter is_ascii v;
          value = filter (\<lambda>c. is_word c \<or> is_space c \<or> c = CHR ''-'') (lower value)
      in strip_chars (\<lambda>c. c = CHR ''-'' \<or> c = CHR ''_'') (collapse False value))"

subsection \<open>Queries against the store\<close>

text \<open>
  \<open>get_object_or_404\<close> and \<open>Manager.get\<close> on the rows a filter selects: exactly one row
  is returned, none raises \<open>Http404\<close> (respectively \<open>DoesNotExist\<close>), more than one
  raises \<open>MultipleObjectsReturned\<close>.
\<close>

definition get_object_or_404 :: "'a list \<Rightarrow> exn + 'a" where
  "get_object_or_404 rows =
     (case rows of [] \<Rightarrow> Inl Http404 | [x] \<Rightarrow> Inr x | _ # _ # _ \<Rightarrow> Inl MultipleObjectsReturned)"

definition objects_get :: "'a list \<Rightarrow> exn + 'a" where
  "objects_get rows =
     (case rows of [] \<Rightarrow> Inl DoesNotExist | [x] \<Rightarrow> Inr x | _ # _ # _ \<Rightarrow> Inl MultipleObjectsReturned)"

text \<open>
  Modelled from the spec: the managers \<open>Event.public\<close> and \<open>Event.private\<close> are declared in
  \<^verbatim>\<open>events/models.py\<close>, which is not among the sources. The spec's visibility partition
  makes every event either public (private flag false) or private (flag true), and
  \<open>get_event\<close> and \<open>get_private_event\<close> below select on the column \<open>make_private\<close>.
\<close>

definition Event_objects :: "database \<Rightarrow> event list" where
  "Event_objects db = db_events db"

definition Event_public :: "database \<Rightarrow> event list" where
  "Event_public db = filter (\<lambda>e. make_private e = False) (db_events db)"

definition Event_private :: "database \<Rightarrow> event list" where
  "Event_private db = filter (\<lambda>e. make_private e = True) (db_events db)"

definition get_event :: "database \<Rightarrow> string \<Rightarrow> exn + event" where
  "get_event db s =
     get_object_or_404 (filter (\<lambda>e. slug e = s \<and> make_private e = False) (db_events db))"

definition get_private_event :: "database \<Rightarrow> string \<Rightarrow> exn + event" where
  "get_private_event db s =
     get_object_or_404 (filter (\<lambda>e. slug e = s \<and> make_private e = True) (db_events db))"

text \<open>
  The join of an event with its tags: one tag row per entry of the many-to-many table.
  A filter on a column of the joined tags yields the event once per matching row.
\<close>

definition join_tags :: "database \<Rightarrow> event \<Rightarrow> tag list" where
  "join_tags db e = concat (map (\<lambda>i. filter (\<lambda>t. tag_id t = i) (db_tags db)) (tags e))"

definition filter_tags :: "(tag \<Rightarrow> bool) \<Rightarrow> database \<Rightarrow> event list \<Rightarrow> event list" where
  "filter_tags P db es = concat (map (\<lambda>e. map (\<lambda>t. e) (filter P (join_tags db e))) es)"

subsection \<open>Search and attend list\<close>

text \<open>
  Two querysets joined with \<open>|\<close> select the rows that satisfy either filter, each row
  once: the union of the caller's private matches and the public matches is one filter
  with a disjunction over the event table. A query that is missing or empty is answered
  before any queryset is built. The handler's \<open>print(request.GET)\<close> writes to the server's
  console and is not part of the response.
\<close>

definition SearchEventView_get ::
  "backend \<Rightarrow> database \<Rightarrow> user_id option \<Rightarrow> querydict \<Rightarrow> exn + response" where
  "SearchEventView_get backend db req_user GET =
     (case qd_get GET ''search'' of
        None \<Rightarrow> Inr (HttpResponse ''The entry you made is invalid :( '')
      | Some query \<Rightarrow>
          if query = [] then Inr (HttpResponse ''The entry you made is invalid :( '')
          else
            let search_results =
              (case req_user of
                 Some u \<Rightarrow>
                   filter (\<lambda>e. (make_private e = True \<and> field_contains backend query (name e)
                                 \<and> user e = u)
                              \<or> (make_private e = False \<and> field_icontains backend query (name e)))
                     (db_events db)
               | None \<Rightarrow> filter (\<lambda>e. field_icontains backend query (name e)) (Event_public db))
            in Inr (Render ''search_events.html''
                      [(''search_results'', Evs search_results), (''query'', Str query)]))"

definition Attendlist_get :: "database \<Rightarrow> user_id option \<Rightarrow> exn + response" where
  "Attendlist_get db req_user =
     (case req_user of
        None \<Rightarrow> Inr (HttpResponseRedirect ToLogin)
      | Some u \<Rightarrow>
          let events = filter (\<lambda>e. u \<in> users_attending e) (Event_public db)
          in Inr (Render ''attend_list.html'' [(''events'', Evs events)]))"

subsection \<open>Category, event detail and tag views\<close>

definition CategoryDetailView_get :: "database \<Rightarrow> user_id option \<Rightarrow> string \<Rightarrow> exn + response" where
  "CategoryDetailView_get db req_user s =
     (case objects_get (filter (\<lambda>c. cat_slug c = s) (db_categories db)) of
        Inl x \<Rightarrow> Inl x
      | Inr cat \<Rightarrow>
          let queryset =
            (case req_user of
               Some u \<Rightarrow>
                 filter (\<lambda>e. category e = Some (cat_id cat)
                              \<and> (make_private e = False \<or> (make_private e = True \<and> user e = u)))
                   (db_events db)
             | None \<Rightarrow> filter (\<lambda>e. category e = Some (cat_id cat)) (Event_public db))
          in Inr (Render ''category.html'' [(''queryset'', Evs queryset), (''category'', Cat cat)]))"

definition EventDetailView_get :: "database \<Rightarrow> string \<Rightarrow> exn + response" where
  "EventDetailView_get db s =
     (case get_event db s of
        Inl x \<Rightarrow> Inl x
      | Inr event \<Rightarrow>
          let tgs = join_tags db event;
              related_events =
                remdups (filter (\<lambda>e. event_id e \<noteq> event_id event)
                  (filter_tags (\<lambda>t. tag_id t \<in> set (map tag_id tgs)) db (Event_public db)));
              comments = filter (\<lambda>c. comment_event c = event_id event) (db_comments db)
          in Inr (Render ''event_detail.html''
                    [(''event'', Ev event), (''tags'', Tags tgs),
                     (''related_events'', Evs (take 4 related_events)),
                     (''comments'', Cms comments), (''form'', Frm Form_unbound)]))"

text \<open>
  \<open>users_attending.add\<close> and \<open>users_attending.remove\<close> write the attendee relation of the
  row with the event's primary key.
\<close>

definition attending_add :: "database \<Rightarrow> event \<Rightarrow> user_id \<Rightarrow> database" where
  "attending_add db event u =
     db\<lparr>db_events :=
          map (\<lambda>e. if event_id e = event_id event
                    then e\<lparr>users_attending := insert u (users_attending e)\<rparr> else e)
            (db_events db)\<rparr>"

definition attending_remove :: "database \<Rightarrow> event \<Rightarrow> user_id \<Rightarrow> database" where
  "attending_remove db event u =
     db\<lparr>db_events :=
          map (\<lambda>e. if event_id e = event_id event
                    then e\<lparr>users_attending := users_attending e - {u}\<rparr> else e)
            (db_events db)\<rparr>"

text \<open>
  The comment form is an opaque validator: \<open>comment_form\<close> gives the cleaned data of a
  valid submission and \<open>None\<close> for an invalid one. When the form is invalid the method
  reaches its end without a \<open>return\<close>; a view that returns \<open>None\<close> makes the framework
  raise, which is the outcome \<open>ViewReturnedNone\<close>.
\<close>

definition EventDetailView_post ::
  "(querydict \<Rightarrow> comment_data option) \<Rightarrow> database \<Rightarrow> user_id option \<Rightarrow> querydict \<Rightarrow> string
     \<Rightarrow> exn + response \<times> database" where
  "EventDetailView_post comment_form db req_user POST s =
     (case req_user of
        None \<Rightarrow> Inr (HttpResponseRedirect ToLogin, db)
      | Some u \<Rightarrow>
          (case get_event db s of
             Inl x \<Rightarrow> Inl x
           | Inr event \<Rightarrow>
               let event_action = qd_get POST (str_nat (event_id event)) in
               if event_action = Some ''Add to attend-list''
               then Inr (HttpResponse ''This evnt has been added to your evnt list.'',
                         attending_add db event u)
               else if event_action = Some ''Remove from attend-list''
               then Inr (HttpResponse ''This evnt has been removed from your attend-list'',
                         attending_remove db event u)
               else
                 (case comment_form POST of
                    Some c \<Rightarrow>
                      (case get_event db s of
                         Inl x \<Rightarrow> Inl x
                       | Inr ev \<Rightarrow>
                           let comment = \<lparr>username = c_username c, comment_body = c_comment c,
                                          comment_event = event_id ev\<rparr>
                           in Inr (HttpResponseRedirect (ToEvent event),
                                   db\<lparr>db_comments := db_comments db @ [comment]\<rparr>))
                  | None \<Rightarrow> Inl ViewReturnedNone)))"

definition EventTagView_get :: "backend \<Rightarrow> database \<Rightarrow> string \<Rightarrow> exn + response" where
  "EventTagView_get backend db s =
     (let events = filter_tags (\<lambda>t. field_contains backend s (tag_slug t)) db (Event_objects db) in
      case get_object_or_404 (filter (\<lambda>t. tag_slug t = s) (db_tags db)) of
        Inl x \<Rightarrow> Inl x
      | Inr tg \<Rightarrow> Inr (Render ''event_tag.html'' [(''events'', Evs events), (''tag'', Tg tg)]))"

text \<open>
  The owner's branch fetches the event a second time, by owner and by name, passing the
  event itself as the name: the lookup compares the column with \<open>str(event)\<close>. The
  method \<open>Event.__str__\<close> is declared in \<^verbatim>\<open>events/models.py\<close>, which is not among the
  sources, so it is the parameter \<open>event_str\<close>.
\<close>

definition PrivateEventDetailView_get ::
  "(event \<Rightarrow> string) \<Rightarrow> database \<Rightarrow> user_id option \<Rightarrow> string \<Rightarrow> exn + response" where
  "PrivateEventDetailView_get event_str db req_user s =
     (case req_user of
        None \<Rightarrow> Inr (HttpResponseRedirect ToLogin)
      | Some u \<Rightarrow>
          (case get_private_event db s of
             Inl x \<Rightarrow> Inl x
           | Inr event0 \<Rightarrow>
               if u = user event0 then
                 (case objects_get
                         (filter (\<lambda>e. user e = u \<and> name e = event_str event0) (Event_private db)) of
                    Inl x \<Rightarrow> Inl x
                  | Inr event \<Rightarrow>
                      let tgs = join_tags db event;
                          related_events =
                            remdups (filter (\<lambda>e. event_id e \<noteq> event_id event)
                              (filter_tags (\<lambda>t. tag_id t \<in> set (map tag_id tgs)) db
                                 (filter (\<lambda>e. user e = u \<and> make_private e = False)
                                    (Event_objects db))))
                      in Inr (Render ''private_event_detail.html''
                                [(''event'', Ev event), (''tags'', Tags tgs),
                                 (''related_events'', Evs (take 4 related_events))]))
               else Inr HttpResponseForbidden))"

subsection \<open>Creating and editing events\<close>

text \<open>
  Modelled from the spec: \<open>Event.save\<close> writes the model declared in
  \<^verbatim>\<open>events/models.py\<close>, which is not among the sources. The spec's data model makes the
  slug unique, so saving a row whose slug another row already has raises
  \<open>IntegrityError\<close>. A new row gets a fresh primary key; an existing row is replaced.
\<close>

definition next_id :: "event list \<Rightarrow> nat" where
  "next_id es = Suc (fold max (map event_id es) 0)"

definition save_new :: "database \<Rightarrow> event \<Rightarrow> exn + event \<times> database" where
  "save_new db e =
     (if slug e \<in> set (map slug (db_events db)) then Inl IntegrityError
      else let e' = e\<lparr>event_id := next_id (db_events db)\<rparr>
           in Inr (e', db\<lparr>db_events := db_events db @ [e']\<rparr>))"

definition save_existing :: "database \<Rightarrow> event \<Rightarrow> exn + database" where
  "save_existing db e =
     (if slug e \<in> set (map slug (filter (\<lambda>x. event_id x \<noteq> event_id e) (db_events db)))
      then Inl IntegrityError
      else Inr (db\<lparr>db_events := map (\<lambda>x. if event_id x = event_id e then e else x) (db_events db)\<rparr>))"

text \<open>
  The event forms are opaque validators: \<open>add_form\<close> and \<open>edit_form\<close> give the cleaned data
  of a valid submission and \<open>None\<close> for an invalid one. \<open>form.save(commit=False)\<close> builds
  the instance from the cleaned data (\<open>new_instance\<close>), respectively writes the cleaned
  data into the instance being edited (\<open>apply_data\<close>); the tags reach the store with
  \<open>form.save_m2m()\<close>, right after the row.
\<close>

definition new_instance :: "event_data \<Rightarrow> event" where
  "new_instance c =
     \<lparr>event_id = 0, name = c_name c, slug = [], category = c_category c, user = 0,
      make_private = c_make_private c, tags = c_tags c, users_attending = {}\<rparr>"

definition apply_data :: "event \<Rightarrow> event_data \<Rightarrow> event" where
  "apply_data e c =
     e\<lparr>name := c_name c, category := c_category c, make_private := c_make_private c,
       tags := c_tags c\<rparr>"

definition AddEventView_post ::
  "(querydict \<Rightarrow> event_data option) \<Rightarrow> database \<Rightarrow> user_id option \<Rightarrow> querydict
     \<Rightarrow> exn + response \<times> database \<times> message list" where
  "AddEventView_post add_form db req_user POST =
     (case req_user of
        None \<Rightarrow> Inr (HttpResponseRedirect ToLogin, db, [])
      | Some u \<Rightarrow>
          (case add_form POST of
             Some c \<Rightarrow>
               let event = new_instance c;
                   event = event\<lparr>user := u\<rparr>;
                   event = event\<lparr>slug := slugify (name event)\<rparr>
               in (case save_new db event of
                     Inl x \<Rightarrow> Inl x
                   | Inr (event, db') \<Rightarrow>
                       Inr (HttpResponseRedirect (ToEvent event), db',
                            [Success ''Evnt posted successfully.'']))
           | None \<Rightarrow>
               Inr (Render ''add_event.html'' [(''form'', Frm (Form_bound POST))], db,
                    [Error ''Your evnt was not posted. Try again.''])))"

definition EditEventView_post ::
  "(event \<Rightarrow> querydict \<Rightarrow> event_data option) \<Rightarrow> database \<Rightarrow> user_id option \<Rightarrow> querydict
     \<Rightarrow> string \<Rightarrow> exn + response \<times> database \<times> message list" where
  "EditEventView_post edit_form db req_user POST s =
     (case req_user of
        None \<Rightarrow> Inr (HttpResponseRedirect ToLogin, db, [])
      | Some u \<Rightarrow>
          (case get_object_or_404 (filter (\<lambda>e. slug e = s) (db_events db)) of
             Inl x \<Rightarrow> Inl x
           | Inr event \<Rightarrow>
               if u = user event then
                 (case edit_form event POST of
                    Some c \<Rightarrow>
                      let edit = apply_data event c;
                          edit = edit\<lparr>slug := slugify (name edit)\<rparr>
                      in (case save_existing db edit of
                            Inl x \<Rightarrow> Inl x
                          | Inr db' \<Rightarrow>
                              Inr (HttpResponseRedirect (ToEvent edit), db',
                                   [Success ''Changes saved!'']))
                  | None \<Rightarrow>
                      Inr (Render ''edit_event.html''
                             [(''form'', Frm (Form_bound POST)), (''event'', Ev event)], db,
                           [Error ''Error while updating evnt.'']))
               else Inr (HttpResponseForbidden, db, [])))"

subsection \<open>The search policy in the spec's words\<close>






subsection \<open>The data-model invariant of the store\<close>

text \<open>
  The spec's data model: the slug identifies an event and is derived from its name; the
  primary key identifies a row.
\<close>

definition unique_slugs :: "database \<Rightarrow> bool" where
  "unique_slugs db = distinct (map slug (db_events db))"

definition slugs_derived :: "database \<Rightarrow> bool" where
  "slugs_derived db = list_all (\<lambda>e. slug e = slugify (name e)) (db_events db)"

definition unique_ids :: "database \<Rightarrow> bool" where
  "unique_ids db = distinct (map event_id (db_events db))"

definition store_ok :: "database \<Rightarrow> bool" where
  "store_ok db = (unique_ids db \<and> unique_slugs db \<and> slugs_derived db)"

subsection \<open>A small store and sample validators\<close>

definition music :: tag where
  "music = \<lparr>tag_id = 1, tag_name = ''music'', tag_slug = ''music''\<rparr>"

definition outdoor :: tag where
  "outdoor = \<lparr>tag_id = 2, tag_name = ''outdoor'', tag_slug = ''outdoor''\<rparr>"

definition concerts :: category where
  "concerts = \<lparr>cat_id = 1, cat_name = ''Concerts'', cat_slug = ''concerts''\<rparr>"

definition spring_fest :: event where
  "spring_fest =
     \<lparr>event_id = 1, name = ''Spring Fest'', slug = ''spring-fest'', category = Some 1, user = 1,
      make_private = False, tags = [1, 2], users_attending = {}\<rparr>"

definition jazz_night :: event where
  "jazz_night =
     \<lparr>event_id = 2, name = ''Jazz Night'', slug = ''jazz-night'', category = Some 1, user = 2,
      make_private = False, tags = [1], users_attending = {1}\<rparr>"

definition house_party :: event where
  "house_party =
     \<lparr>event_id = 3, name = ''House Party'', slug = ''house-party'', category = None, user = 1,
      make_private = True, tags = [1], users_attending = {1}\<rparr>"

definition demo_db :: database where
  "demo_db =
     \<lparr>db_events = [spring_fest, jazz_night, house_party], db_tags = [music, outdoor],
      db_categories = [concerts], db_comments = []\<rparr>"

text \<open>
  The sample store after its owner got a second private event under the name
  ``House Party'', with a slug and a primary key of its own.
\<close>

definition house_party_twin :: event where
  "house_party_twin = house_party\<lparr>event_id := 4, slug := ''house-party-2''\<rparr>"

definition twin_db :: database where
  "twin_db = demo_db\<lparr>db_events := db_events demo_db @ [house_party_twin]\<rparr>"

definition empty_db :: database where
  "empty_db = \<lparr>db_events = [], db_tags = [], db_categories = [], db_comments = []\<rparr>"

text \<open>The event a user with key 1 creates as ``Spring Fest'', and the same event renamed.\<close>

definition created_fest :: event where
  "created_fest =
     \<lparr>event_id = 1, name = ''Spring Fest'', slug = ''spring-fest'', category = None, user = 1,
      make_private = False, tags = [], users_attending = {}\<rparr>"

definition renamed_fest :: event where
  "renamed_fest =
     \<lparr>event_id = 1, name = ''Spring Fest 2'', slug = ''spring-fest-2'', category = None, user = 1,
      make_private = False, tags = [], users_attending = {}\<rparr>"

text \<open>A comment validator that requires both fields to be present and non-empty.\<close>

definition demo_comment_form :: "querydict \<Rightarrow> comment_data option" where
  "demo_comment_form q =
     (case (qd_get q ''username'', qd_get q ''comment'') of
        (Some u, Some c) \<Rightarrow>
          if u = [] \<or> c = [] then None else Some \<lparr>c_username = u, c_comment = c\<rparr>
      | _ \<Rightarrow> None)"

text \<open>An event validator that requires a non-empty name.\<close>

definition demo_event_form :: "querydict \<Rightarrow> event_data option" where
  "demo_event_form q =
     (case qd_get q ''name'' of
        Some n \<Rightarrow>
          if n = [] then None
          else Some \<lparr>c_name = n, c_category = None,
                     c_make_private = (qd_get q ''make_private'' = Some ''on''), c_tags = []\<rparr>
      | None \<Rightarrow> None)"

section \<open>Properties\<close>

subsection \<open>Library behaviour\<close>



subsection \<open>Search\<close>

text \<open>
  Claim C5. A search request whose \<open>search\<close> parameter is missing or empty gets the
  explicit invalid-input response, whatever the store holds, whoever asks and whatever
  the database: the response is fixed before any event is read.
\<close>

theorem search_empty_query_invalid:
  "qd_get GET ''search'' = None \<or> qd_get GET ''search'' = Some [] \<Longrightarrow>
   SearchEventView_get backend db req_user GET
     = Inr (HttpResponse ''The entry you made is invalid :( '')"
  by (auto simp: SearchEventView_get_def)

theorem search_empty_query_invalid_witness:
  "(qd_get [] ''search'' = None \<or> qd_get [] ''search'' = Some [])
   \<and> SearchEventView_get SQLite demo_db (Some 1) []
       = Inr (HttpResponse ''The entry you made is invalid :( '')
   \<and> (qd_get [(''search'', [])] ''search'' = None \<or> qd_get [(''search'', [])] ''search'' = Some [])
   \<and> SearchEventView_get (CaseSensitiveLike lower) demo_db None [(''search'', [])]
       = Inr (HttpResponse ''The entry you made is invalid :( '')"
proof -
  have a: "qd_get [] ''search'' = None \<or> qd_get [] ''search'' = Some []"
    by (simp add: qd_get_def)
  have b: "qd_get [(''search'', [])] ''search'' = None \<or> qd_get [(''search'', [])] ''search'' = Some []"
    by (simp add: qd_get_def)
  show ?thesis
    using a b search_empty_query_invalid [OF a, of SQLite demo_db "Some 1"]
      search_empty_query_invalid [OF b, of "CaseSensitiveLike lower" demo_db None]
    by simp
qed





lemma demo_search_exact_P:
  "SearchEventView_get (CaseSensitiveLike lower) demo_db (Some 1) [(''search'', ''P'')]
     = Inr (Render ''search_events.html''
         [(''search_results'', Evs [spring_fest, house_party]), (''query'', Str ''P'')])"
  by code_simp

lemma demo_search_anon:
  "SearchEventView_get SQLite demo_db None [(''search'', ''P'')]
     = Inr (Render ''search_events.html''
         [(''search_results'', Evs [spring_fest]), (''query'', Str ''P'')])"
  by code_simp




subsection \<open>Related events\<close>

lemma in_filter_tagsD: "e \<in> set (filter_tags P db es) \<Longrightarrow> e \<in> set es"
  by (auto simp: filter_tags_def)

lemma related_public:
  assumes "EventDetailView_get db s = Inr (Render t ctx)"
  shows "\<exists>E rel. map_of ctx ''event'' = Some (Ev E)
           \<and> map_of ctx ''related_events'' = Some (Evs rel)
           \<and> length rel \<le> 4 \<and> E \<notin> set rel
           \<and> (\<forall>r \<in> set rel. \<not> make_private r \<and> event_id r \<noteq> event_id E)"
proof (cases "get_event db s")
  case (Inl x)
  with assms show ?thesis by (simp add: EventDetailView_get_def)
next
  case (Inr E)
  define rel where "rel = take 4 (remdups (filter (\<lambda>e. event_id e \<noteq> event_id E)
                  (filter_tags (\<lambda>t. tag_id t \<in> set (map tag_id (join_tags db E))) db (Event_public db))))"
  have sub: "set rel \<subseteq> {e \<in> set (Event_public db). event_id e \<noteq> event_id E}"
    by (auto simp: rel_def dest!: in_set_takeD in_filter_tagsD)
  have ctx: "map_of ctx ''event'' = Some (Ev E)" "map_of ctx ''related_events'' = Some (Evs rel)"
    using assms Inr by (auto simp: EventDetailView_get_def Let_def rel_def)
  have "length rel \<le> 4" by (simp add: rel_def)
  moreover have "E \<notin> set rel" using sub by auto
  moreover have "\<forall>r \<in> set rel. \<not> make_private r \<and> event_id r \<noteq> event_id E"
    using sub by (auto simp: Event_public_def)
  ultimately show ?thesis using ctx by blast
qed

lemma related_private:
  assumes "PrivateEventDetailView_get event_str db req_user s = Inr (Render t ctx)"
  shows "\<exists>E rel. map_of ctx ''event'' = Some (Ev E)
           \<and> map_of ctx ''related_events'' = Some (Evs rel)
           \<and> length rel \<le> 4 \<and> E \<notin> set rel
           \<and> (\<forall>r \<in> set rel. event_id r \<noteq> event_id E \<and> \<not> make_private r \<and> Some (user r) = req_user)"
proof -
  from assms obtain u E0 E where u: "req_user = Some u"
    and E0: "get_private_event db s = Inr E0" and own: "u = user E0"
    and E: "objects_get (filter (\<lambda>e. user e = u \<and> name e = event_str E0) (Event_private db)) = Inr E"
    by (auto simp: PrivateEventDetailView_get_def split: option.splits sum.splits if_splits)
  define rel where "rel = take 4 (remdups (filter (\<lambda>e. event_id e \<noteq> event_id E)
                  (filter_tags (\<lambda>t. tag_id t \<in> set (map tag_id (join_tags db E))) db
                     (filter (\<lambda>e. user e = u \<and> make_private e = False) (Event_objects db)))))"
  have sub: "set rel \<subseteq> {e \<in> set (db_events db). event_id e \<noteq> event_id E \<and> user e = u \<and> \<not> make_private e}"
    by (auto simp: rel_def Event_objects_def dest!: in_set_takeD in_filter_tagsD)
  have ctx: "map_of ctx ''event'' = Some (Ev E)" "map_of ctx ''related_events'' = Some (Evs rel)"
    using assms u E0 own E by (auto simp: PrivateEventDetailView_get_def Let_def rel_def)
  have "length rel \<le> 4" by (simp add: rel_def)
  moreover have "E \<notin> set rel" using sub by auto
  moreover have "\<forall>r \<in> set rel. event_id r \<noteq> event_id E \<and> \<not> make_private r \<and> Some (user r) = req_user"
    using sub u by auto
  ultimately show ?thesis using ctx by blast
qed


lemma demo_detail:
  "EventDetailView_get demo_db ''spring-fest'' =
     Inr (Render ''event_detail.html''
       [(''event'', Ev spring_fest), (''tags'', Tags [music, outdoor]),
        (''related_events'', Evs [jazz_night]), (''comments'', Cms []),
        (''form'', Frm Form_unbound)])"
  by code_simp

lemma demo_private_detail:
  "PrivateEventDetailView_get name demo_db (Some 1) ''house-party'' =
     Inr (Render ''private_event_detail.html''
       [(''event'', Ev house_party), (''tags'', Tags [music]),
        (''related_events'', Evs [spring_fest])])"
  by code_simp

text \<open>
  Claim C7. Whenever a detail view renders, the related events it passes to the template
  are at most 4, none of them is the rendered event itself (none has its primary key), and
  on the public detail view none of them is private. On the private detail view they are
  moreover public events of the requesting owner.
\<close>

theorem related_events_bounded:
  "(EventDetailView_get db s = Inr (Render t ctx) \<longrightarrow>
      (\<exists>E rel. map_of ctx ''event'' = Some (Ev E)
         \<and> map_of ctx ''related_events'' = Some (Evs rel)
         \<and> length rel \<le> 4 \<and> E \<notin> set rel
         \<and> (\<forall>r \<in> set rel. \<not> make_private r \<and> event_id r \<noteq> event_id E)))
   \<and> (PrivateEventDetailView_get event_str db req_user s' = Inr (Render t' ctx') \<longrightarrow>
      (\<exists>E rel. map_of ctx' ''event'' = Some (Ev E)
         \<and> map_of ctx' ''related_events'' = Some (Evs rel)
         \<and> length rel \<le> 4 \<and> E \<notin> set rel
         \<and> (\<forall>r \<in> set rel. event_id r \<noteq> event_id E \<and> \<not> make_private r \<and> Some (user r) = req_user)))"
proof (intro conjI impI)
  assume "EventDetailView_get db s = Inr (Render t ctx)"
  then show "\<exists>E rel. map_of ctx ''event'' = Some (Ev E)
         \<and> map_of ctx ''related_events'' = Some (Evs rel)
         \<and> length rel \<le> 4 \<and> E \<notin> set rel
         \<and> (\<forall>r \<in> set rel. \<not> make_private r \<and> event_id r \<noteq> event_id E)"
    by (rule related_public)
next
  assume "PrivateEventDetailView_get event_str db req_user s' = Inr (Render t' ctx')"
  then show "\<exists>E rel. map_of ctx' ''event'' = Some (Ev E)
         \<and> map_of ctx' ''related_events'' = Some (Evs rel)
         \<and> length rel \<le> 4 \<and> E \<notin> set rel
         \<and> (\<forall>r \<in> set rel. event_id r \<noteq> event_id E \<and> \<not> make_private r \<and> Some (user r) = req_user)"
    by (rule related_private)
qed

theorem related_events_bounded_witness:
  "(\<exists>ctx. EventDetailView_get demo_db ''spring-fest'' = Inr (Render ''event_detail.html'' ctx)
      \<and> (\<exists>E rel. map_of ctx ''event'' = Some (Ev E)
         \<and> map_of ctx ''related_events'' = Some (Evs rel)
         \<and> length rel \<le> 4 \<and> E \<notin> set rel
         \<and> (\<forall>r \<in> set rel. \<not> make_private r \<and> event_id r \<noteq> event_id E)))
   \<and> (\<exists>ctx. PrivateEventDetailView_get name demo_db (Some 1) ''house-party''
               = Inr (Render ''private_event_detail.html'' ctx)
      \<and> (\<exists>E rel. map_of ctx ''event'' = Some (Ev E)
         \<and> map_of ctx ''related_events'' = Some (Evs rel)
         \<and> length rel \<le> 4 \<and> E \<notin> set rel
         \<and> (\<forall>r \<in> set rel. event_id r \<noteq> event_id E \<and> \<not> make_private r \<and> Some (user r) = Some 1)))"
  using demo_detail demo_private_detail
    related_events_bounded [of demo_db "''spring-fest''" _ _ name "Some 1" "''house-party''"]
  by blast

subsection \<open>Attend list\<close>

lemma demo_attend:
  "Attendlist_get demo_db (Some 1) = Inr (Render ''attend_list.html'' [(''events'', Evs [jazz_night])])"
  by code_simp

text \<open>
  Claim C10. For a signed-in user the attend list renders exactly the public events whose
  attendee relation holds the user; a private event never appears, also when the user
  attends it.
\<close>

theorem attend_list_public_only:
  "\<exists>es. Attendlist_get db (Some u) = Inr (Render ''attend_list.html'' [(''events'', Evs es)])
      \<and> es = filter (\<lambda>e. \<not> make_private e \<and> u \<in> users_attending e) (db_events db)
      \<and> (\<forall>e \<in> set (db_events db). make_private e \<longrightarrow> e \<notin> set es)"
  by (auto simp: Attendlist_get_def Event_public_def)

theorem attend_list_public_only_witness:
  "Attendlist_get demo_db (Some 1) = Inr (Render ''attend_list.html'' [(''events'', Evs [jazz_night])])
   \<and> [jazz_night] = filter (\<lambda>e. \<not> make_private e \<and> 1 \<in> users_attending e) (db_events demo_db)
   \<and> house_party \<in> set (db_events demo_db) \<and> make_private house_party
   \<and> 1 \<in> users_attending house_party \<and> house_party \<notin> set [jazz_night]"
proof -
  have "house_party \<in> set (db_events demo_db)" "make_private house_party"
    "1 \<in> users_attending house_party"
    by (simp_all add: demo_db_def house_party_def)
  then show ?thesis
    using demo_attend attend_list_public_only [of demo_db 1]
    by auto
qed

subsection \<open>Private event detail\<close>

lemma filter_unique:
  assumes "distinct (map f xs)" and "x \<in> set xs" and "P x"
    and "\<And>y. y \<in> set xs \<Longrightarrow> P y \<Longrightarrow> f y = f x"
  shows "filter P xs = [x]"
  using assms
proof (induction xs)
  case Nil
  then show ?case by simp
next
  case (Cons a xs)
  show ?case
  proof (cases "a = x")
    case True
    have "filter P xs = []"
    proof (rule ccontr)
      assume "filter P xs \<noteq> []"
      then obtain y where y: "y \<in> set xs" "P y"
        by (metis filter_False)
      then have "f y = f x" using Cons.prems(4) by simp
      with y True have "f a \<in> f ` set xs" by (metis imageI)
      with Cons.prems(1) show False by simp
    qed
    with True Cons.prems(3) show ?thesis by simp
  next
    case False
    with Cons.prems have x: "x \<in> set xs" by simp
    have npa: "\<not> P a"
    proof
      assume "P a"
      then have "f a = f x" using Cons.prems(4) by simp
      with x have "f a \<in> f ` set xs" by (metis imageI)
      with Cons.prems(1) show False by simp
    qed
    have d: "distinct (map f xs)" using Cons.prems(1) by simp
    have "filter P xs = [x]"
    proof (rule Cons.IH [OF d x Cons.prems(3)])
      fix y assume "y \<in> set xs" and "P y"
      then show "f y = f x" using Cons.prems(4) [of y] by simp
    qed
    with npa show ?thesis by simp
  qed
qed

lemma private_detail_not_owner:
  assumes "filter (\<lambda>e. slug e = slug E \<and> make_private e = True) (db_events db) = [E]"
    and "u \<noteq> user E"
  shows "PrivateEventDetailView_get event_str db (Some u) (slug E) = Inr HttpResponseForbidden"
  using assms
  by (simp add: PrivateEventDetailView_get_def get_private_event_def get_object_or_404_def)

lemma private_detail_owner:
  assumes "filter (\<lambda>e. slug e = slug E \<and> make_private e = True) (db_events db) = [E]"
    and "filter (\<lambda>e. user e = user E \<and> name e = event_str E) (Event_private db) = [E]"
  shows "\<exists>tgs rel. PrivateEventDetailView_get event_str db (Some (user E)) (slug E)
           = Inr (Render ''private_event_detail.html''
                    [(''event'', Ev E), (''tags'', Tags tgs), (''related_events'', Evs rel)])"
  using assms
  by (simp add: PrivateEventDetailView_get_def get_private_event_def get_object_or_404_def
      objects_get_def Let_def)

lemma demo_slugs: "unique_slugs demo_db" "slugs_derived demo_db"
  by code_simp+

lemma demo_forbidden:
  "PrivateEventDetailView_get name demo_db (Some 2) ''house-party'' = Inr HttpResponseForbidden"
  by code_simp

text \<open>
  In a store that satisfies the data-model invariant (slugs are unique and derived from
  the names), for every private event \<open>E\<close>: a signed-in user other than the owner gets the
  forbidden response for \<open>E\<close>'s slug, and the owner gets the rendered detail page of \<open>E\<close>,
  provided the printed form of the event, by which the owner's branch looks the event up
  again, is its name.
\<close>

theorem private_detail_owner_only:
  assumes "unique_slugs db" and "slugs_derived db"
    and "E \<in> set (db_events db)" and "make_private E"
    and "event_str E = name E"
  shows "(u \<noteq> user E \<longrightarrow>
            PrivateEventDetailView_get event_str db (Some u) (slug E) = Inr HttpResponseForbidden)
       \<and> (\<exists>tgs rel. PrivateEventDetailView_get event_str db (Some (user E)) (slug E)
              = Inr (Render ''private_event_detail.html''
                       [(''event'', Ev E), (''tags'', Tags tgs), (''related_events'', Evs rel)]))"
proof -
  have d: "distinct (map slug (db_events db))"
    using assms(1) by (simp add: unique_slugs_def)
  have by_slug: "filter (\<lambda>e. slug e = slug E \<and> make_private e = True) (db_events db) = [E]"
    using d assms(3,4) by (intro filter_unique [where f = slug]) auto
  have derived: "\<And>y. y \<in> set (db_events db) \<Longrightarrow> slug y = slugify (name y)"
    using assms(2) by (simp add: slugs_derived_def list_all_iff)
  have "filter (\<lambda>e. make_private e = True \<and> user e = user E \<and> name e = event_str E) (db_events db) = [E]"
  proof (intro filter_unique [where f = slug] d assms(3))
    show "make_private E = True \<and> user E = user E \<and> name E = event_str E"
      using assms(4,5) by simp
  next
    fix y assume "y \<in> set (db_events db)"
      and "make_private y = True \<and> user y = user E \<and> name y = event_str E"
    then show "slug y = slug E"
      using derived [of y] derived [OF assms(3)] assms(5) by simp
  qed
  then have by_name: "filter (\<lambda>e. user e = user E \<and> name e = event_str E) (Event_private db) = [E]"
    by (simp add: Event_private_def conj_commute conj_left_commute)
  show ?thesis
    using private_detail_not_owner [OF by_slug, of u event_str]
      private_detail_owner [of E db event_str, OF by_slug by_name]
    by blast
qed

theorem private_detail_owner_only_witness:
  "unique_slugs demo_db \<and> slugs_derived demo_db \<and> house_party \<in> set (db_events demo_db)
   \<and> make_private house_party \<and> (2::nat) \<noteq> user house_party
   \<and> PrivateEventDetailView_get name demo_db (Some 2) (slug house_party) = Inr HttpResponseForbidden
   \<and> (\<exists>tgs rel. PrivateEventDetailView_get name demo_db (Some (user house_party)) (slug house_party)
              = Inr (Render ''private_event_detail.html''
                       [(''event'', Ev house_party), (''tags'', Tags tgs), (''related_events'', Evs rel)]))"
proof -
  have a: "house_party \<in> set (db_events demo_db)" "make_private house_party"
    "(2::nat) \<noteq> user house_party"
    by (simp_all add: demo_db_def house_party_def)
  note t = private_detail_owner_only [where event_str = name and u = 2, OF demo_slugs a(1,2) refl]
  have f: "PrivateEventDetailView_get name demo_db (Some 2) (slug house_party) = Inr HttpResponseForbidden"
    by (rule mp [OF conjunct1 [OF t] a(3)])
  have g: "\<exists>tgs rel. PrivateEventDetailView_get name demo_db (Some (user house_party)) (slug house_party)
              = Inr (Render ''private_event_detail.html''
                       [(''event'', Ev house_party), (''tags'', Tags tgs), (''related_events'', Evs rel)])"
    by (rule conjunct2 [OF t])
  show ?thesis
    using demo_slugs a f g by (intro conjI)
qed

text \<open>The store with the second ``House Party'': keys and slugs are unique.\<close>

lemma twin_store:
  "unique_ids twin_db" "unique_slugs twin_db"
  "get_private_event twin_db ''house-party'' = Inr house_party"
  "Event_private twin_db = [house_party, house_party_twin]"
  "user house_party = 1" "user house_party_twin = 1"
  "name house_party = ''House Party''" "name house_party_twin = ''House Party''"
  "make_private house_party"
  by code_simp+

text \<open>
  Claim C1. The owner's half fails in a store whose slugs and primary keys are unique:
  user 1 owns the private events \<open>house_party\<close> and \<open>house_party_twin\<close>, both named
  ``House Party''. The slug ``house-party'' resolves to \<open>house_party\<close>, the owner asks for
  it, and the second lookup, by owner and name, finds both events:
  \<open>MultipleObjectsReturned\<close> leaves the handler instead of the rendered page. Whatever the
  printed form of an event is, the owner gets an exception here.
\<close>

theorem private_detail_owner_lookup_raises:
  "unique_ids twin_db \<and> unique_slugs twin_db
   \<and> get_private_event twin_db ''house-party'' = Inr house_party
   \<and> make_private house_party \<and> user house_party = 1
   \<and> PrivateEventDetailView_get name twin_db (Some 1) ''house-party'' = Inl MultipleObjectsReturned
   \<and> (PrivateEventDetailView_get event_str twin_db (Some 1) ''house-party''
         = Inl MultipleObjectsReturned
       \<or> PrivateEventDetailView_get event_str twin_db (Some 1) ''house-party'' = Inl DoesNotExist)"
proof -
  have by_name: "PrivateEventDetailView_get name twin_db (Some 1) ''house-party''
      = Inl MultipleObjectsReturned"
    by (simp add: PrivateEventDetailView_get_def twin_store objects_get_def)
  have any: "PrivateEventDetailView_get event_str twin_db (Some 1) ''house-party''
         = Inl MultipleObjectsReturned
       \<or> PrivateEventDetailView_get event_str twin_db (Some 1) ''house-party'' = Inl DoesNotExist"
    by (cases "event_str house_party = ''House Party''")
      (simp_all add: PrivateEventDetailView_get_def twin_store objects_get_def del: One_nat_def)
  show ?thesis
    using twin_store(1,2,3,9,5) by_name any by (intro conjI)
qed

subsection \<open>Attendance\<close>

lemma get_object_or_404_Inr: "get_object_or_404 rows = Inr x \<longleftrightarrow> rows = [x]"
  by (auto simp: get_object_or_404_def split: list.splits)

lemma get_event_attending_add:
  assumes "get_event db s = Inr E"
  shows "get_event (attending_add db E u) s = Inr (E\<lparr>users_attending := insert u (users_attending E)\<rparr>)"
proof -
  let ?g = "\<lambda>e. if event_id e = event_id E
                 then e\<lparr>users_attending := insert u (users_attending e)\<rparr> else e"
  let ?P = "\<lambda>e. slug e = s \<and> make_private e = False"
  have sel: "filter ?P (db_events db) = [E]"
    using assms by (simp add: get_event_def get_object_or_404_Inr)
  have "filter ?P (map ?g (db_events db)) = map ?g (filter (?P \<circ> ?g) (db_events db))"
    by (rule filter_map)
  also have "?P \<circ> ?g = ?P" by (auto simp: fun_eq_iff)
  finally have "filter ?P (map ?g (db_events db)) = [?g E]"
    using sel by simp
  then show ?thesis
    by (simp add: get_event_def attending_add_def get_object_or_404_def)
qed

lemma get_event_attending_remove:
  assumes "get_event db s = Inr E"
  shows "get_event (attending_remove db E u) s = Inr (E\<lparr>users_attending := users_attending E - {u}\<rparr>)"
proof -
  let ?g = "\<lambda>e. if event_id e = event_id E
                 then e\<lparr>users_attending := users_attending e - {u}\<rparr> else e"
  let ?P = "\<lambda>e. slug e = s \<and> make_private e = False"
  have sel: "filter ?P (db_events db) = [E]"
    using assms by (simp add: get_event_def get_object_or_404_Inr)
  have "filter ?P (map ?g (db_events db)) = map ?g (filter (?P \<circ> ?g) (db_events db))"
    by (rule filter_map)
  also have "?P \<circ> ?g = ?P" by (auto simp: fun_eq_iff)
  finally have "filter ?P (map ?g (db_events db)) = [?g E]"
    using sel by simp
  then show ?thesis
    by (simp add: get_event_def attending_remove_def get_object_or_404_def)
qed

lemma get_event_mem: "get_event db s = Inr E \<Longrightarrow> E \<in> set (db_events db)"
proof -
  assume "get_event db s = Inr E"
  then have "filter (\<lambda>e. slug e = s \<and> make_private e = False) (db_events db) = [E]"
    by (simp add: get_event_def get_object_or_404_Inr)
  then have "E \<in> set (filter (\<lambda>e. slug e = s \<and> make_private e = False) (db_events db))"
    by simp
  then show ?thesis by simp
qed

lemma same_id_same_row:
  assumes "unique_ids db" and "E \<in> set (db_events db)" and "e \<in> set (db_events db)"
    and "event_id e = event_id E"
  shows "e = E"
proof -
  have "inj_on event_id (set (db_events db))"
    using assms(1) by (simp add: unique_ids_def distinct_map)
  then show ?thesis using assms(2-4) by (auto dest: inj_onD)
qed

lemma attending_add_present:
  assumes "unique_ids db" and "E \<in> set (db_events db)" and "u \<in> users_attending E"
  shows "attending_add db E u = db"
proof -
  have "map (\<lambda>e. if event_id e = event_id E
                 then e\<lparr>users_attending := insert u (users_attending e)\<rparr> else e) (db_events db)
        = db_events db"
  proof (rule map_idI)
    fix e assume e: "e \<in> set (db_events db)"
    show "(if event_id e = event_id E
           then e\<lparr>users_attending := insert u (users_attending e)\<rparr> else e) = e"
    proof (cases "event_id e = event_id E")
      case True
      then have "e = E" using same_id_same_row [OF assms(1,2) e] by simp
      then show ?thesis using assms(3) by (simp add: insert_absorb)
    next
      case False
      then show ?thesis by simp
    qed
  qed
  then show ?thesis by (simp add: attending_add_def)
qed

lemma attending_remove_absent:
  assumes "unique_ids db" and "E \<in> set (db_events db)" and "u \<notin> users_attending E"
  shows "attending_remove db E u = db"
proof -
  have "map (\<lambda>e. if event_id e = event_id E
                 then e\<lparr>users_attending := users_attending e - {u}\<rparr> else e) (db_events db)
        = db_events db"
  proof (rule map_idI)
    fix e assume e: "e \<in> set (db_events db)"
    show "(if event_id e = event_id E
           then e\<lparr>users_attending := users_attending e - {u}\<rparr> else e) = e"
    proof (cases "event_id e = event_id E")
      case True
      then have "e = E" using same_id_same_row [OF assms(1,2) e] by simp
      then show ?thesis using assms(3) by simp
    next
      case False
      then show ?thesis by simp
    qed
  qed
  then show ?thesis by (simp add: attending_remove_def)
qed

lemma post_add:
  assumes "get_event db s = Inr E"
    and "qd_get POST (str_nat (event_id E)) = Some ''Add to attend-list''"
  shows "EventDetailView_post comment_form db (Some u) POST s
           = Inr (HttpResponse ''This evnt has been added to your evnt list.'', attending_add db E u)"
  using assms by (simp add: EventDetailView_post_def)

lemma post_remove:
  assumes "get_event db s = Inr E"
    and "qd_get POST (str_nat (event_id E)) = Some ''Remove from attend-list''"
  shows "EventDetailView_post comment_form db (Some u) POST s
           = Inr (HttpResponse ''This evnt has been removed from your attend-list'',
                  attending_remove db E u)"
  using assms by (simp add: EventDetailView_post_def)

lemma remove_after_add:
  assumes "event_id E' = event_id E"
  shows "attending_remove (attending_add db E u) E' u = attending_remove db E u"
  using assms by (simp add: attending_remove_def attending_add_def comp_def if_distrib cong: if_cong)

lemma demo_ids: "unique_ids demo_db"
  by code_simp

lemma demo_get_spring: "get_event demo_db ''spring-fest'' = Inr spring_fest"
  by code_simp

lemma demo_tokens:
  "qd_get [(''1'', ''Add to attend-list'')] (str_nat (event_id spring_fest)) = Some ''Add to attend-list''"
  "qd_get [(''1'', ''Remove from attend-list'')] (str_nat (event_id spring_fest)) = Some ''Remove from attend-list''"
  by code_simp+

lemma demo_absent: "2 \<notin> users_attending spring_fest"
  by (simp add: spring_fest_def)

text \<open>
  Claim C8, amended. For a signed-in user \<open>u\<close> and a public event \<open>E\<close> resolved by its
  slug, the add action followed by the remove action both answer with their plain
  confirmation, and afterwards \<open>E\<close>'s attendee set is the prior set without \<open>u\<close>: the prior
  state is restored exactly when \<open>u\<close> was not attending before. With unique primary keys,
  adding an attendee who is already present and removing one who is absent leave the
  store unchanged.
\<close>

theorem attendance_add_then_remove:
  assumes "get_event db s = Inr E"
    and "qd_get POST_add (str_nat (event_id E)) = Some ''Add to attend-list''"
    and "qd_get POST_remove (str_nat (event_id E)) = Some ''Remove from attend-list''"
  shows "\<exists>db1 db2 E2.
           EventDetailView_post comment_form db (Some u) POST_add s
             = Inr (HttpResponse ''This evnt has been added to your evnt list.'', db1)
         \<and> EventDetailView_post comment_form db1 (Some u) POST_remove s
             = Inr (HttpResponse ''This evnt has been removed from your attend-list'', db2)
         \<and> get_event db2 s = Inr E2
         \<and> users_attending E2 = users_attending E - {u}
         \<and> (u \<notin> users_attending E \<longrightarrow> E2 = E)
         \<and> (unique_ids db \<and> u \<notin> users_attending E \<longrightarrow> db2 = db)
         \<and> (unique_ids db \<and> u \<in> users_attending E \<longrightarrow> db1 = db)
         \<and> (unique_ids db \<and> u \<notin> users_attending E \<longrightarrow>
               EventDetailView_post comment_form db (Some u) POST_remove s
                 = Inr (HttpResponse ''This evnt has been removed from your attend-list'', db))"
proof -
  define E1 where "E1 = E\<lparr>users_attending := insert u (users_attending E)\<rparr>"
  define db1 where "db1 = attending_add db E u"
  define db2 where "db2 = attending_remove db1 E1 u"
  define E2 where "E2 = E1\<lparr>users_attending := users_attending E1 - {u}\<rparr>"
  have id1: "event_id E1 = event_id E" by (simp add: E1_def)
  have g1: "get_event db1 s = Inr E1"
    unfolding db1_def E1_def by (rule get_event_attending_add [OF assms(1)])
  have g2: "get_event db2 s = Inr E2"
    unfolding db2_def E2_def by (rule get_event_attending_remove [OF g1])
  have mem: "E \<in> set (db_events db)" by (rule get_event_mem [OF assms(1)])
  have p1: "EventDetailView_post comment_form db (Some u) POST_add s
             = Inr (HttpResponse ''This evnt has been added to your evnt list.'', db1)"
    unfolding db1_def by (rule post_add [OF assms(1,2)])
  have p2: "EventDetailView_post comment_form db1 (Some u) POST_remove s
             = Inr (HttpResponse ''This evnt has been removed from your attend-list'', db2)"
    unfolding db2_def using post_remove [OF g1, of POST_remove comment_form u] assms(3) id1
    by simp
  have ua: "users_attending E2 = users_attending E - {u}"
    by (simp add: E2_def E1_def)
  have same: "u \<notin> users_attending E \<longrightarrow> E2 = E"
    by (simp add: E2_def E1_def)
  have db2_eq: "db2 = attending_remove db E u"
    unfolding db2_def db1_def by (rule remove_after_add [OF id1])
  have restored: "unique_ids db \<and> u \<notin> users_attending E \<longrightarrow> db2 = db"
    using db2_eq attending_remove_absent [OF _ mem] by simp
  have noop_add: "unique_ids db \<and> u \<in> users_attending E \<longrightarrow> db1 = db"
    unfolding db1_def using attending_add_present [OF _ mem] by simp
  have noop_remove: "unique_ids db \<and> u \<notin> users_attending E \<longrightarrow>
               EventDetailView_post comment_form db (Some u) POST_remove s
                 = Inr (HttpResponse ''This evnt has been removed from your attend-list'', db)"
    using post_remove [OF assms(1,3), of comment_form u] attending_remove_absent [OF _ mem, of u]
    by simp
  show ?thesis
    using p1 p2 g2 ua same restored noop_add noop_remove by blast
qed

theorem attendance_add_then_remove_witness:
  "get_event demo_db ''spring-fest'' = Inr spring_fest
   \<and> qd_get [(''1'', ''Add to attend-list'')] (str_nat (event_id spring_fest)) = Some ''Add to attend-list''
   \<and> qd_get [(''1'', ''Remove from attend-list'')] (str_nat (event_id spring_fest))
       = Some ''Remove from attend-list''
   \<and> unique_ids demo_db \<and> 2 \<notin> users_attending spring_fest
   \<and> (\<exists>db1. EventDetailView_post demo_comment_form demo_db (Some 2) [(''1'', ''Add to attend-list'')]
               ''spring-fest''
             = Inr (HttpResponse ''This evnt has been added to your evnt list.'', db1)
          \<and> EventDetailView_post demo_comment_form db1 (Some 2) [(''1'', ''Remove from attend-list'')]
               ''spring-fest''
             = Inr (HttpResponse ''This evnt has been removed from your attend-list'', demo_db))
   \<and> EventDetailView_post demo_comment_form demo_db (Some 2) [(''1'', ''Remove from attend-list'')]
        ''spring-fest''
        = Inr (HttpResponse ''This evnt has been removed from your attend-list'', demo_db)"
  using demo_get_spring demo_tokens demo_ids demo_absent
    attendance_add_then_remove [OF demo_get_spring demo_tokens, of demo_comment_form 2]
  by blast

text \<open>
  The round trip as the claim states it fails for a user who already attends: user 1
  attends \<open>jazz_night\<close>, the add action changes nothing, and the remove action leaves the
  event without attendees.
\<close>

theorem attendance_round_trip_counterexample:
  "get_event demo_db ''jazz-night'' = Inr jazz_night
   \<and> users_attending jazz_night = {1}
   \<and> EventDetailView_post demo_comment_form demo_db (Some 1) [(''2'', ''Add to attend-list'')]
        ''jazz-night''
       = Inr (HttpResponse ''This evnt has been added to your evnt list.'', demo_db)
   \<and> EventDetailView_post demo_comment_form demo_db (Some 1) [(''2'', ''Remove from attend-list'')]
        ''jazz-night''
       = Inr (HttpResponse ''This evnt has been removed from your attend-list'',
              demo_db\<lparr>db_events := [spring_fest, jazz_night\<lparr>users_attending := {}\<rparr>, house_party]\<rparr>)
   \<and> get_event (demo_db\<lparr>db_events := [spring_fest, jazz_night\<lparr>users_attending := {}\<rparr>, house_party]\<rparr>)
        ''jazz-night''
       = Inr (jazz_night\<lparr>users_attending := {}\<rparr>)
   \<and> users_attending (jazz_night\<lparr>users_attending := {}\<rparr>) \<noteq> users_attending jazz_night"
  by code_simp

subsection \<open>Slugs on create and edit\<close>

lemma add_valid:
  assumes "add_form POST = Some c"
  shows "case AddEventView_post add_form db (Some u) POST of
           Inl x \<Rightarrow> x = IntegrityError \<and> slugify (c_name c) \<in> set (map slug (db_events db))
         | Inr (r, db', msgs) \<Rightarrow>
             \<exists>e. r = HttpResponseRedirect (ToEvent e) \<and> db_events db' = db_events db @ [e]
                \<and> name e = c_name c \<and> slug e = slugify (c_name c) \<and> user e = u"
  using assms
  by (simp add: AddEventView_post_def save_new_def new_instance_def Let_def)

lemma edit_valid:
  assumes "get_object_or_404 (filter (\<lambda>e. slug e = s) (db_events db)) = Inr E"
    and "u = user E" and "edit_form E POST = Some c"
  shows "case EditEventView_post edit_form db (Some u) POST s of
           Inl x \<Rightarrow> x = IntegrityError
             \<and> slugify (c_name c)
                 \<in> set (map slug (filter (\<lambda>x. event_id x \<noteq> event_id E) (db_events db)))
         | Inr (r, db', msgs) \<Rightarrow>
             \<exists>e. r = HttpResponseRedirect (ToEvent e)
                \<and> db_events db' = map (\<lambda>x. if event_id x = event_id E then e else x) (db_events db)
                \<and> e \<in> set (db_events db')
                \<and> event_id e = event_id E \<and> name e = c_name c \<and> slug e = slugify (c_name c)"
proof -
  have "filter (\<lambda>e. slug e = s) (db_events db) = [E]"
    using assms(1) by (auto simp: get_object_or_404_def split: list.splits)
  then have "E \<in> set (filter (\<lambda>e. slug e = s) (db_events db))" by simp
  then have mem: "E \<in> set (db_events db)" by simp
  define edit where "edit = (apply_data E c)\<lparr>slug := slugify (c_name c)\<rparr>"
  have ed: "event_id edit = event_id E" "name edit = c_name c" "slug edit = slugify (c_name c)"
    by (simp_all add: edit_def apply_data_def)
  have in_map: "edit \<in> set (map (\<lambda>x. if event_id x = event_id E then edit else x) (db_events db))"
    using mem by (force simp: image_iff)
  show ?thesis
    using assms ed in_map
    by (simp add: EditEventView_post_def save_existing_def Let_def edit_def apply_data_def)
qed

lemma slugify_examples:
  "slugify ''Spring Fest'' = ''spring-fest''" "slugify ''Spring Fest 2'' = ''spring-fest-2''"
  by code_simp+

lemma demo_create:
  "AddEventView_post demo_event_form empty_db (Some 1) [(''name'', ''Spring Fest'')]
     = Inr (HttpResponseRedirect (ToEvent created_fest), empty_db\<lparr>db_events := [created_fest]\<rparr>,
            [Success ''Evnt posted successfully.''])"
  by code_simp

lemma demo_edit:
  "EditEventView_post (\<lambda>e. demo_event_form) (empty_db\<lparr>db_events := [created_fest]\<rparr>)
      (Some 1) [(''name'', ''Spring Fest 2'')] ''spring-fest''
     = Inr (HttpResponseRedirect (ToEvent renamed_fest), empty_db\<lparr>db_events := [renamed_fest]\<rparr>,
            [Success ''Changes saved!''])"
  by code_simp

lemma demo_forms:
  "demo_event_form [(''name'', ''Spring Fest'')]
     = Some \<lparr>c_name = ''Spring Fest'', c_category = None, c_make_private = False, c_tags = []\<rparr>"
  "demo_event_form [(''name'', ''Spring Fest 2'')]
     = Some \<lparr>c_name = ''Spring Fest 2'', c_category = None, c_make_private = False, c_tags = []\<rparr>"
  by code_simp+

lemma demo_lookup:
  "get_object_or_404 (filter (\<lambda>e. slug e = ''spring-fest'')
       (db_events (empty_db\<lparr>db_events := [created_fest]\<rparr>))) = Inr created_fest"
  "(1::nat) = user created_fest"
  "slug created_fest = ''spring-fest''" "slug renamed_fest = ''spring-fest-2''"
  by code_simp+

text \<open>
  Claim C9. A valid create submission by a signed-in user either stores a new event
  whose slug is the slugified submitted name, or stores nothing because that slug is
  taken. A valid edit submission by the owner either replaces the event by one whose slug
  is the slugified submitted name, or stores nothing because another event has that slug.
  The name ``Spring Fest'' gives the slug ``spring-fest'' and the name ``Spring Fest 2''
  the slug ``spring-fest-2''.
\<close>

theorem slug_derived_on_create_and_edit:
  "(add_form POST = Some c \<longrightarrow>
      (case AddEventView_post add_form db (Some u) POST of
         Inl x \<Rightarrow> x = IntegrityError \<and> slugify (c_name c) \<in> set (map slug (db_events db))
       | Inr (r, db', msgs) \<Rightarrow>
           \<exists>e. r = HttpResponseRedirect (ToEvent e) \<and> db_events db' = db_events db @ [e]
              \<and> name e = c_name c \<and> slug e = slugify (c_name c) \<and> user e = u))
   \<and> (get_object_or_404 (filter (\<lambda>e. slug e = s) (db_events db)) = Inr E \<and> u = user E
        \<and> edit_form E POST' = Some c' \<longrightarrow>
      (case EditEventView_post edit_form db (Some u) POST' s of
         Inl x \<Rightarrow> x = IntegrityError
           \<and> slugify (c_name c')
               \<in> set (map slug (filter (\<lambda>x. event_id x \<noteq> event_id E) (db_events db)))
       | Inr (r, db', msgs) \<Rightarrow>
           \<exists>e. r = HttpResponseRedirect (ToEvent e)
              \<and> db_events db' = map (\<lambda>x. if event_id x = event_id E then e else x) (db_events db)
              \<and> e \<in> set (db_events db')
              \<and> event_id e = event_id E \<and> name e = c_name c' \<and> slug e = slugify (c_name c')))
   \<and> slugify ''Spring Fest'' = ''spring-fest''
   \<and> slugify ''Spring Fest 2'' = ''spring-fest-2''"
  using add_valid [of add_form POST c db u] edit_valid [of s db E u edit_form POST' c']
    slugify_examples
  by blast

theorem slug_derived_on_create_and_edit_witness:
  "demo_event_form [(''name'', ''Spring Fest'')]
     = Some \<lparr>c_name = ''Spring Fest'', c_category = None, c_make_private = False, c_tags = []\<rparr>
   \<and> (case AddEventView_post demo_event_form empty_db (Some 1) [(''name'', ''Spring Fest'')] of
         Inl x \<Rightarrow> x = IntegrityError
           \<and> slugify (c_name \<lparr>c_name = ''Spring Fest'', c_category = None, c_make_private = False,
                               c_tags = []\<rparr>) \<in> set (map slug (db_events empty_db))
       | Inr (r, db', msgs) \<Rightarrow>
           \<exists>e. r = HttpResponseRedirect (ToEvent e) \<and> db_events db' = db_events empty_db @ [e]
              \<and> name e = c_name \<lparr>c_name = ''Spring Fest'', c_category = None,
                                  c_make_private = False, c_tags = []\<rparr>
              \<and> slug e = slugify (c_name \<lparr>c_name = ''Spring Fest'', c_category = None,
                                            c_make_private = False, c_tags = []\<rparr>)
              \<and> user e = 1)
   \<and> AddEventView_post demo_event_form empty_db (Some 1) [(''name'', ''Spring Fest'')]
     = Inr (HttpResponseRedirect (ToEvent created_fest), empty_db\<lparr>db_events := [created_fest]\<rparr>,
            [Success ''Evnt posted successfully.''])
   \<and> slug created_fest = ''spring-fest''
   \<and> get_object_or_404 (filter (\<lambda>e. slug e = ''spring-fest'')
       (db_events (empty_db\<lparr>db_events := [created_fest]\<rparr>))) = Inr created_fest
   \<and> (1::nat) = user created_fest
   \<and> demo_event_form [(''name'', ''Spring Fest 2'')]
     = Some \<lparr>c_name = ''Spring Fest 2'', c_category = None, c_make_private = False, c_tags = []\<rparr>
   \<and> EditEventView_post (\<lambda>e. demo_event_form) (empty_db\<lparr>db_events := [created_fest]\<rparr>)
      (Some 1) [(''name'', ''Spring Fest 2'')] ''spring-fest''
     = Inr (HttpResponseRedirect (ToEvent renamed_fest), empty_db\<lparr>db_events := [renamed_fest]\<rparr>,
            [Success ''Changes saved!''])
   \<and> slug renamed_fest = ''spring-fest-2''"
proof -
  note create =
    slug_derived_on_create_and_edit
      [of demo_event_form "[(''name'', ''Spring Fest'')]"
          "\<lparr>c_name = ''Spring Fest'', c_category = None, c_make_private = False, c_tags = []\<rparr>"
          empty_db 1]
  note edit =
    slug_derived_on_create_and_edit
      [where db = "empty_db\<lparr>db_events := [created_fest]\<rparr>" and u = 1 and s = "''spring-fest''"
         and E = created_fest and edit_form = "\<lambda>e. demo_event_form"
         and POST' = "[(''name'', ''Spring Fest 2'')]"
         and c' = "\<lparr>c_name = ''Spring Fest 2'', c_category = None, c_make_private = False, c_tags = []\<rparr>"]
  have stored:
    "case AddEventView_post demo_event_form empty_db (Some 1) [(''name'', ''Spring Fest'')] of
         Inl x \<Rightarrow> x = IntegrityError
           \<and> slugify (c_name \<lparr>c_name = ''Spring Fest'', c_category = None, c_make_private = False,
                               c_tags = []\<rparr>) \<in> set (map slug (db_events empty_db))
       | Inr (r, db', msgs) \<Rightarrow>
           \<exists>e. r = HttpResponseRedirect (ToEvent e) \<and> db_events db' = db_events empty_db @ [e]
              \<and> name e = c_name \<lparr>c_name = ''Spring Fest'', c_category = None,
                                  c_make_private = False, c_tags = []\<rparr>
              \<and> slug e = slugify (c_name \<lparr>c_name = ''Spring Fest'', c_category = None,
                                            c_make_private = False, c_tags = []\<rparr>)
              \<and> user e = 1"
    by (rule mp [OF conjunct1 [OF create] demo_forms(1)])
  show ?thesis
    using demo_forms demo_create demo_edit demo_lookup stored edit
    by (intro conjI)
qed

subsection \<open>The handlers keep the data-model invariant\<close>

text \<open>
  Creating and editing events, the attendance actions and comment submission lead from a
  store with unique primary keys and unique, name-derived slugs to another such store.
\<close>

lemma fold_max_ge: "(a::nat) \<le> fold max xs a \<and> (\<forall>x \<in> set xs. x \<le> fold max xs a)"
proof (induction xs arbitrary: a)
  case Nil
  then show ?case by simp
next
  case (Cons y ys)
  have "max y a \<le> fold max ys (max y a)" and "\<forall>x \<in> set ys. x \<le> fold max ys (max y a)"
    using Cons.IH [of "max y a"] by simp_all
  then show ?case by auto
qed

lemma next_id_fresh: "next_id es \<notin> set (map event_id es)"
proof
  assume "next_id es \<in> set (map event_id es)"
  then have "next_id es \<le> fold max (map event_id es) 0"
    using fold_max_ge [of 0 "map event_id es"] by blast
  then show False by (simp add: next_id_def)
qed

lemma add_preserves_store_ok:
  assumes "store_ok db" and "AddEventView_post add_form db req_user POST = Inr (r, db', msgs)"
  shows "store_ok db'"
proof (cases req_user)
  case None
  with assms show ?thesis by (simp add: AddEventView_post_def)
next
  case (Some u)
  show ?thesis
  proof (cases "add_form POST")
    case None
    with assms Some show ?thesis by (simp add: AddEventView_post_def)
  next
    case (Some c)
    define e where "e = \<lparr>event_id = next_id (db_events db), name = c_name c,
      slug = slugify (c_name c), category = c_category c, user = u,
      make_private = c_make_private c, tags = c_tags c, users_attending = {}\<rparr>"
    have free: "slugify (c_name c) \<notin> set (map slug (db_events db))"
      and db': "db' = db\<lparr>db_events := db_events db @ [e]\<rparr>"
      using assms(2) Some \<open>req_user = Some u\<close>
      by (auto simp: AddEventView_post_def save_new_def new_instance_def Let_def e_def
          split: if_splits)
    have "event_id e \<notin> set (map event_id (db_events db))"
      using next_id_fresh [of "db_events db"] by (simp add: e_def)
    moreover have "slug e \<notin> set (map slug (db_events db))"
      using free by (simp add: e_def)
    moreover have "slug e = slugify (name e)" by (simp add: e_def)
    ultimately show ?thesis
      using assms(1) by (simp add: store_ok_def unique_ids_def unique_slugs_def slugs_derived_def db')
  qed
qed

lemma distinct_map_replace:
  assumes "distinct (map k xs)" and "distinct (map f xs)"
    and "v \<notin> f ` {x \<in> set xs. k x \<noteq> i}"
  shows "distinct (map (\<lambda>x. if k x = i then v else f x) xs)"
  using assms
proof (induction xs)
  case Nil
  then show ?case by simp
next
  case (Cons a xs)
  have IH: "distinct (map (\<lambda>x. if k x = i then v else f x) xs)"
    using Cons by auto
  show ?case
  proof (cases "k a = i")
    case True
    have "k x \<noteq> i" if "x \<in> set xs" for x
    proof -
      from that have "k x \<in> set (map k xs)" by simp
      moreover have "k a \<notin> set (map k xs)" using Cons.prems(1) by simp
      ultimately show ?thesis using True by metis
    qed
    then have "v \<notin> (\<lambda>x. if k x = i then v else f x) ` set xs"
      using Cons.prems(3) by auto
    with True IH show ?thesis by simp
  next
    case False
    have "f a \<noteq> v" using Cons.prems(3) False by auto
    moreover have "f a \<notin> f ` set xs" using Cons.prems(2) by simp
    ultimately have "f a \<notin> (\<lambda>x. if k x = i then v else f x) ` set xs"
      by auto
    with False IH show ?thesis by simp
  qed
qed

lemma edit_preserves_store_ok:
  assumes "store_ok db" and "EditEventView_post edit_form db req_user POST s = Inr (r, db', msgs)"
  shows "store_ok db'"
proof -
  consider (same) "db' = db"
    | (saved) E c where "req_user = Some (user E)" "edit_form E POST = Some c"
        "save_existing db ((apply_data E c)\<lparr>slug := slugify (c_name c)\<rparr>) = Inr db'"
    using assms(2)
    by (auto simp: EditEventView_post_def Let_def apply_data_def
        split: option.splits sum.splits if_splits)
  then show ?thesis
  proof cases
    case same
    with assms(1) show ?thesis by simp
  next
    case saved
    define edit where "edit = (apply_data E c)\<lparr>slug := slugify (c_name c)\<rparr>"
    have ed: "slug edit = slugify (name edit)"
      by (simp add: edit_def apply_data_def)
    have free: "slug edit \<notin> slug ` {x \<in> set (db_events db). event_id x \<noteq> event_id edit}"
      and db': "db_events db' = map (\<lambda>x. if event_id x = event_id edit then edit else x) (db_events db)"
      using saved(3) by (auto simp: save_existing_def edit_def [symmetric] split: if_splits)
    have ids: "map event_id (db_events db') = map event_id (db_events db)"
      by (simp add: db' comp_def if_distrib cong: if_cong)
    have slugs: "map slug (db_events db')
        = map (\<lambda>x. if event_id x = event_id edit then slug edit else slug x) (db_events db)"
      by (simp add: db' comp_def if_distrib cong: if_cong)
    have "distinct (map slug (db_events db'))"
      unfolding slugs using assms(1) free
      by (intro distinct_map_replace) (simp_all add: store_ok_def unique_ids_def unique_slugs_def)
    moreover have "list_all (\<lambda>e. slug e = slugify (name e)) (db_events db')"
      using assms(1) ed by (auto simp: db' store_ok_def slugs_derived_def list_all_iff)
    ultimately show ?thesis
      using assms(1) ids by (simp add: store_ok_def unique_ids_def unique_slugs_def slugs_derived_def)
  qed
qed

lemma attending_add_columns:
  "map event_id (db_events (attending_add db E u)) = map event_id (db_events db)"
  "map slug (db_events (attending_add db E u)) = map slug (db_events db)"
  "map name (db_events (attending_add db E u)) = map name (db_events db)"
  by (induction "db_events db") (simp_all add: attending_add_def)

lemma attending_remove_columns:
  "map event_id (db_events (attending_remove db E u)) = map event_id (db_events db)"
  "map slug (db_events (attending_remove db E u)) = map slug (db_events db)"
  "map name (db_events (attending_remove db E u)) = map name (db_events db)"
  by (induction "db_events db") (simp_all add: attending_remove_def)

lemma store_ok_columns:
  assumes "map event_id (db_events db') = map event_id (db_events db)"
    and "map slug (db_events db') = map slug (db_events db)"
    and "map name (db_events db') = map name (db_events db)"
    and "store_ok db"
  shows "store_ok db'"
proof -
  have "slugs_derived d \<longleftrightarrow>
          list_all2 (\<lambda>a b. a = slugify b) (map slug (db_events d)) (map name (db_events d))" for d
    by (simp add: slugs_derived_def list_all2_map1 list_all2_map2 list_all2_same list_all_iff)
  then show ?thesis
    using assms by (simp add: store_ok_def unique_ids_def unique_slugs_def)
qed

lemma detail_post_preserves_store_ok:
  assumes "store_ok db"
    and "EventDetailView_post comment_form db req_user POST s = Inr (r, db')"
  shows "store_ok db'"
proof -
  consider "db_events db' = db_events db"
    | E u where "db' = attending_add db E u"
    | E u where "db' = attending_remove db E u"
    using assms(2)
    by (auto simp: EventDetailView_post_def Let_def split: option.splits sum.splits if_splits)
  then show ?thesis
  proof cases
    case 1
    then show ?thesis using assms(1) by (intro store_ok_columns [of db' db]) simp_all
  next
    case 2
    then show ?thesis
      using assms(1) by (intro store_ok_columns [of db' db]) (simp_all add: attending_add_columns)
  next
    case 3
    then show ?thesis
      using assms(1) by (intro store_ok_columns [of db' db]) (simp_all add: attending_remove_columns)
  qed
qed

subsection \<open>Handlers that miss their contract\<close>

lemma demo_tag_page:
  "EventTagView_get SQLite demo_db ''music''
     = Inr (Render ''event_tag.html''
             [(''events'', Evs [spring_fest, jazz_night, house_party]), (''tag'', Tg music)])"
  "EventTagView_get (CaseSensitiveLike lower) demo_db ''music''
     = Inr (Render ''event_tag.html''
             [(''events'', Evs [spring_fest, jazz_night, house_party]), (''tag'', Tg music)])"
  by code_simp+

text \<open>
  Claim C2. Tag browsing selects from all events, not from the public ones: in the sample
  store the private event \<open>house_party\<close> carries the tag ``music'', and the tag page for
  ``music'' lists it, on every database and for any caller (the handler does not look at
  the caller).
\<close>

theorem tag_browse_lists_private_event:
  "make_private house_party
   \<and> EventTagView_get backend demo_db ''music''
       = Inr (Render ''event_tag.html''
               [(''events'', Evs [spring_fest, jazz_night, house_party]), (''tag'', Tg music)])"
proof (cases backend)
  case SQLite
  then show ?thesis using demo_tag_page(1) by (simp add: house_party_def)
next
  case (CaseSensitiveLike f)
  have "EventTagView_get (CaseSensitiveLike f) demo_db ''music''
      = EventTagView_get (CaseSensitiveLike lower) demo_db ''music''"
    by (simp add: EventTagView_get_def field_contains_def)
  with CaseSensitiveLike show ?thesis using demo_tag_page(2) by (simp add: house_party_def)
qed

text \<open>
  Claim C3. The category detail view fetches the category with \<open>Manager.get\<close>: for a
  slug that no category has, \<open>DoesNotExist\<close> leaves the handler, for an anonymous and for a
  signed-in caller alike, where a not-found response is due.
\<close>

theorem category_detail_unknown_slug_raises:
  "filter (\<lambda>c. cat_slug c = ''nope'') (db_categories demo_db) = []
   \<and> CategoryDetailView_get demo_db None ''nope'' = Inl DoesNotExist
   \<and> CategoryDetailView_get demo_db (Some 1) ''nope'' = Inl DoesNotExist"
  by code_simp

text \<open>
  Claim C4. A signed-in POST to the event detail whose data holds no attendance token
  and which the comment validator rejects reaches the end of the method: no response is
  returned, where the detail page with the invalid form is due.
\<close>

theorem invalid_comment_returns_no_response:
  "get_event demo_db ''spring-fest'' = Inr spring_fest
   \<and> qd_get [(''username'', ''ann''), (''comment'', [])] (str_nat (event_id spring_fest)) = None
   \<and> demo_comment_form [(''username'', ''ann''), (''comment'', [])] = None
   \<and> EventDetailView_post demo_comment_form demo_db (Some 2)
        [(''username'', ''ann''), (''comment'', [])] ''spring-fest''
       = Inl ViewReturnedNone"
  by code_simp

end
